theory Spec2Isabelle
  imports Main "HOL-Library.Word"
begin

unbundle bit_operations_syntax

section \<open>The BLE number sender (arduino.ino)\<close>

text \<open>
  The sketch keeps six global variables, polls the BLE transport from \<open>loop()\<close> and,
  while a central is connected, writes an incrementing number to a characteristic once
  per second. The embedding below follows the sketch function by function.

  \<^item> \<open>unsigned long\<close> is a 32-bit word: \<open>-\<close> wraps, \<open>\<le>\<close> and \<open><\<close> compare unsigned and
    \<open>div\<close> is the unsigned division, as in C++.
  \<^item> \<open>int\<close> is a 32-bit word read as two's complement (\<open>sint\<close>), compared with the
    signed order \<open><s\<close>. The counter is the only \<open>int\<close> the sketch computes with; it
    starts at 0 and is reset after 100, far from the end of any \<open>int\<close>.
  \<^item> Everything the sketch asks of its surroundings is an input of the model: each call
    of \<open>millis()\<close>, the result of \<open>BLE.begin()\<close>, of \<open>BLE.central()\<close>, of
    \<open>central.connected()\<close>, of \<open>writeValue\<close> and of \<open>central.rssi()\<close>.
  \<^item> Everything the sketch does to its surroundings is an event of the output trace:
    the calls of the transport and the messages printed on \<open>Serial\<close>, one event per
    message, with the numbers the message carries. \<open>delay\<close> only lets time pass, and
    time is an input, so it leaves no event.
\<close>

subsection \<open>Types and global variables\<close>

type_synonym ulong = "32 word"
type_synonym c_int = "32 word"

record globals =
  lastHeartbeat :: ulong
  connectionStartTime :: ulong
  totalConnections :: ulong
  wasConnected :: bool
  currentNumber :: c_int
  lastNumberSent :: ulong

definition NUMBER_SEND_INTERVAL :: ulong where
  "NUMBER_SEND_INTERVAL = 1000"

text \<open>The initialisers of the global variables (lines 8 to 13).\<close>

definition power_on :: globals where
  "power_on = \<lparr>lastHeartbeat = 0, connectionStartTime = 0, totalConnections = 0,
     wasConnected = False, currentNumber = 0, lastNumberSent = 0\<rparr>"

subsection \<open>Output events\<close>

datatype event =
    Begin bool                          \<comment> \<open>\<open>BLE.begin()\<close> and its result\<close>
  | Log_init_failed                     \<comment> \<open>lines 91 to 95\<close>
  | Log_halted                          \<comment> \<open>line 98\<close>
  | Set_local_name string               \<comment> \<open>line 105\<close>
  | Set_advertised_service              \<comment> \<open>line 106\<close>
  | Add_service                         \<comment> \<open>lines 111 and 112\<close>
  | Write c_int bool                    \<comment> \<open>\<open>numberCharacteristic.writeValue(v)\<close> and its result\<close>
  | Log_initial_value c_int             \<comment> \<open>line 118\<close>
  | Log_initial_value_failed            \<comment> \<open>line 120\<close>
  | Advertise                           \<comment> \<open>\<open>BLE.advertise()\<close>\<close>
  | Log_setup_complete ulong            \<comment> \<open>lines 129 to 137, with the total of connections\<close>
  | Log_waiting                         \<comment> \<open>line 148\<close>
  | Log_new_connection string string ulong c_int
      \<comment> \<open>lines 163 to 165: address, device name, connection seconds, RSSI\<close>
  | Log_sent c_int ulong                \<comment> \<open>line 180: number, connection seconds\<close>
  | Log_send_failed c_int               \<comment> \<open>line 183\<close>
  | Log_alive c_int ulong               \<comment> \<open>line 191: RSSI, connection seconds\<close>
  | Log_lost string ulong               \<comment> \<open>lines 201 to 205: address, connection seconds\<close>
  | Log_advertising_restarted           \<comment> \<open>lines 210 to 214\<close>

subsection \<open>\<open>setup()\<close>\<close>

text \<open>
  The function is called \<open>sketch_setup\<close> here, its own name being a keyword of Isabelle.
  The wait for the serial port (lines 77 to 80) and \<open>printSystemInfo\<close> touch no global
  variable and no part of the transport, and are left out.
\<close>

record setup_in =
  begin_ok :: bool          \<comment> \<open>what \<open>BLE.begin()\<close> returns\<close>
  init_write_ok :: bool     \<comment> \<open>what \<open>writeValue\<close> returns at line 117\<close>
  setup_now :: ulong        \<comment> \<open>what \<open>millis()\<close> returns at line 139\<close>

text \<open>
  The loop \<open>while (1)\<close> of lines 96 to 99 has no exit. The fuel counts the iterations
  that have been watched; when it is used up the loop is still running, so the result
  is \<open>None\<close>: \<open>setup()\<close> has not returned.
\<close>

fun halted :: "nat \<Rightarrow> event list \<Rightarrow> globals option \<times> event list" where
  "halted 0 evs = (None, evs)"
| "halted (Suc n) evs = halted n (evs @ [Log_halted])"

definition sketch_setup :: "setup_in \<Rightarrow> nat \<Rightarrow> globals \<Rightarrow> globals option \<times> event list" where
  "sketch_setup inp fuel g =
     (if \<not> begin_ok inp then halted fuel [Begin False, Log_init_failed]
      else
        (Some (g\<lparr>lastHeartbeat := setup_now inp\<rparr>),
         [Begin True, Set_local_name ''ArduinoNumber'', Set_advertised_service, Add_service,
          Write (currentNumber g) (init_write_ok inp),
          (if init_write_ok inp then Log_initial_value (currentNumber g)
           else Log_initial_value_failed),
          Advertise, Log_setup_complete (totalConnections g)]))"

subsection \<open>The connected state: the body of \<open>while (central.connected())\<close>\<close>

record tick =
  now :: ulong          \<comment> \<open>what \<open>millis()\<close> returns at line 170\<close>
  write_ok :: bool      \<comment> \<open>what \<open>writeValue\<close> returns at line 179, when it is called\<close>
  rssi :: c_int         \<comment> \<open>what \<open>central.rssi()\<close> returns at line 191, when it is called\<close>

text \<open>Lines 175 and 176: the increment and the reset after 100.\<close>

definition next_number :: "c_int \<Rightarrow> c_int" where
  "next_number n = (let n1 = n + 1 in if 100 <s n1 then 0 else n1)"

text \<open>Lines 173 to 187: the periodic send.\<close>

definition send_number :: "globals \<Rightarrow> tick \<Rightarrow> globals \<times> event list" where
  "send_number g tk =
     (if NUMBER_SEND_INTERVAL \<le> now tk - lastNumberSent g then
        let n = next_number (currentNumber g)
        in (g\<lparr>currentNumber := n, lastNumberSent := now tk\<rparr>,
            [Write n (write_ok tk),
             (if write_ok tk
              then Log_sent n ((now tk - connectionStartTime g) div 1000)
              else Log_send_failed n)])
      else (g, []))"

text \<open>Lines 190 to 194: the connection status message.\<close>

definition connection_status :: "globals \<Rightarrow> tick \<Rightarrow> globals \<times> event list" where
  "connection_status g tk =
     (if 30000 < now tk - lastHeartbeat g then
        (g\<lparr>lastHeartbeat := now tk\<rparr>,
         [Log_alive (rssi tk) ((now tk - connectionStartTime g) div 1000)])
      else (g, []))"

definition connected_step :: "globals \<Rightarrow> tick \<Rightarrow> globals \<times> event list" where
  "connected_step g tk =
     (let (g1, e1) = send_number g tk;
          (g2, e2) = connection_status g1 tk
      in (g2, e1 @ e2))"

text \<open>
  The loop runs once for every time \<open>central.connected()\<close> answers true: the list holds
  the inputs of these iterations, and its end is the answer false. A central that never
  leaves keeps \<open>loop()\<close> in this loop; what the sketch has done by then is
  \<open>connected_loop\<close> on the iterations so far.
\<close>

fun connected_loop :: "globals \<Rightarrow> tick list \<Rightarrow> globals \<times> event list" where
  "connected_loop g [] = (g, [])"
| "connected_loop g (tk # tks) =
     (let (g1, e1) = connected_step g tk;
          (g2, e2) = connected_loop g1 tks
      in (g2, e1 @ e2))"

subsection \<open>\<open>loop()\<close>\<close>

record central_in =
  address :: string         \<comment> \<open>\<open>central.address()\<close>\<close>
  deviceName :: string      \<comment> \<open>\<open>central.deviceName()\<close>\<close>
  info_now :: ulong         \<comment> \<open>\<open>millis()\<close> at line 52\<close>
  info_rssi :: c_int        \<comment> \<open>\<open>central.rssi()\<close> at line 55\<close>
  ticks :: "tick list"      \<comment> \<open>the iterations of the loop of line 169\<close>
  lost_now :: ulong         \<comment> \<open>\<open>millis()\<close> at line 204\<close>
  end_now :: ulong          \<comment> \<open>\<open>millis()\<close> at line 215\<close>

record loop_in =
  loop_now :: ulong                 \<comment> \<open>\<open>millis()\<close> at line 143\<close>
  central :: "central_in option"    \<comment> \<open>\<open>BLE.central()\<close>: \<open>None\<close> when it converts to false\<close>

text \<open>Lines 146 to 151.\<close>

definition heartbeat :: "globals \<Rightarrow> ulong \<Rightarrow> globals \<times> event list" where
  "heartbeat g t =
     (if 10000 < t - lastHeartbeat g then
        (g\<lparr>lastHeartbeat := t\<rparr>, if \<not> wasConnected g then [Log_waiting] else [])
      else (g, []))"

text \<open>Lines 158 to 166, with \<open>printConnectionInfo\<close> (lines 45 to 57).\<close>

definition new_connection :: "globals \<Rightarrow> ulong \<Rightarrow> central_in \<Rightarrow> globals \<times> event list" where
  "new_connection g t c =
     (if \<not> wasConnected g then
        (g\<lparr>wasConnected := True, connectionStartTime := t,
           totalConnections := totalConnections g + 1\<rparr>,
         [Log_new_connection (address c)
            (if 0 < length (deviceName c) then deviceName c else ''Unknown'')
            ((info_now c - t) div 1000) (info_rssi c)])
      else (g, []))"

text \<open>Lines 200 to 215.\<close>

definition connection_lost :: "globals \<Rightarrow> central_in \<Rightarrow> globals \<times> event list" where
  "connection_lost g c =
     (g\<lparr>wasConnected := False, lastHeartbeat := end_now c\<rparr>,
      [Log_lost (address c) ((lost_now c - connectionStartTime g) div 1000),
       Advertise, Log_advertising_restarted])"

definition loop :: "globals \<Rightarrow> loop_in \<Rightarrow> globals \<times> event list" where
  "loop g inp =
     (let (g1, e1) = heartbeat g (loop_now inp) in
      case central inp of
        None \<Rightarrow> (g1, e1)
      | Some c \<Rightarrow>
          let (g2, e2) = new_connection g1 (loop_now inp) c;
              (g3, e3) = connected_loop g2 (ticks c);
              (g4, e4) = connection_lost g3 c
          in (g4, e1 @ e2 @ e3 @ e4))"

text \<open>The Arduino core calls \<open>loop()\<close> again and again; here once per input.\<close>

fun run :: "globals \<Rightarrow> loop_in list \<Rightarrow> globals \<times> event list" where
  "run g [] = (g, [])"
| "run g (inp # inps) =
     (let (g1, e1) = loop g inp;
          (g2, e2) = run g1 inps
      in (g2, e1 @ e2))"

text \<open>The whole sketch: \<open>setup()\<close>, then \<open>loop()\<close> for ever, if \<open>setup()\<close> returns.\<close>

definition sketch :: "setup_in \<Rightarrow> nat \<Rightarrow> loop_in list \<Rightarrow> globals option \<times> event list" where
  "sketch sinp fuel inps =
     (case sketch_setup sinp fuel power_on of
        (None, e0) \<Rightarrow> (None, e0)
      | (Some g, e0) \<Rightarrow> (let (g1, e1) = run g inps in (Some g1, e0 @ e1)))"

subsection \<open>Reading a trace\<close>

text \<open>The calls of \<open>writeValue\<close> in a trace, in order: the value and the result.\<close>

fun writes :: "event list \<Rightarrow> (c_int \<times> bool) list" where
  "writes [] = []"
| "writes (Write v ok # evs) = (v, ok) # writes evs"
| "writes (_ # evs) = writes evs"

text \<open>The values handed to the characteristic, and those whose write succeeded.\<close>

definition written :: "event list \<Rightarrow> int list" where
  "written evs = map (\<lambda>(v, ok). sint v) (writes evs)"

definition transmitted :: "event list \<Rightarrow> int list" where
  "transmitted evs = map (\<lambda>(v, ok). sint v) (filter snd (writes evs))"

text \<open>The counter as a number, and its range.\<close>

definition counter :: "globals \<Rightarrow> int" where
  "counter g = sint (currentNumber g)"

definition counter_ok :: "globals \<Rightarrow> bool" where
  "counter_ok g = (0 \<le> counter g \<and> counter g \<le> 100)"

subsection \<open>Derived notions\<close>

text \<open>The sequence \<open>(c + 1, c + 2, \<dots>, c + n) mod 101\<close> of the specification.\<close>

definition counting :: "int \<Rightarrow> nat \<Rightarrow> int list" where
  "counting c n = map (\<lambda>k. (c + int k) mod 101) [1..<Suc n]"

text \<open>
  The globals when \<open>loop()\<close> enters the loop of line 169 (after lines 146 to 166), and
  when it leaves that loop (before line 201).
\<close>

definition at_connect :: "globals \<Rightarrow> loop_in \<Rightarrow> central_in \<Rightarrow> globals" where
  "at_connect g inp c = fst (new_connection (fst (heartbeat g (loop_now inp))) (loop_now inp) c)"

definition at_disconnect :: "globals \<Rightarrow> loop_in \<Rightarrow> central_in \<Rightarrow> globals" where
  "at_disconnect g inp c = fst (connected_loop (at_connect g inp c) (ticks c))"

subsection \<open>Example inputs\<close>

text \<open>A session whose counter stands at 99, and four iterations of which three send.\<close>

definition g99 :: globals where
  "g99 = power_on\<lparr>wasConnected := True, currentNumber := 99\<rparr>"

definition three_ticks :: "tick list" where
  "three_ticks =
     [\<lparr>now = 1000, write_ok = True, rssi = 0\<rparr>, \<lparr>now = 1050, write_ok = True, rssi = 0\<rparr>,
      \<lparr>now = 2000, write_ok = True, rssi = 0\<rparr>, \<lparr>now = 3000, write_ok = True, rssi = 0\<rparr>]"

text \<open>A session whose last send was 296 ms before \<open>millis()\<close> wraps around.\<close>

definition g_late :: globals where
  "g_late = power_on\<lparr>wasConnected := True, lastNumberSent := 4294967000\<rparr>"

text \<open>
  A start of the sketch that succeeds and one that fails; the globals when \<open>setup()\<close>
  has returned at 300 ms.
\<close>

definition sinp_ok :: setup_in where
  "sinp_ok = \<lparr>begin_ok = True, init_write_ok = True, setup_now = 300\<rparr>"

definition sinp_failed :: setup_in where
  "sinp_failed = \<lparr>begin_ok = False, init_write_ok = True, setup_now = 300\<rparr>"

definition g_ready :: globals where
  "g_ready = power_on\<lparr>lastHeartbeat := 300\<rparr>"

text \<open>
  A central that is found at 10300 ms, stays for two iterations of the connected loop
  and is gone at 30400 ms; the call of \<open>loop()\<close> that finds it; and a call that finds
  none.
\<close>

definition peer :: central_in where
  "peer = \<lparr>address = ''aa'', deviceName = [], info_now = 10300, info_rssi = - 60,
     ticks = [\<lparr>now = 10350, write_ok = True, rssi = - 60\<rparr>,
              \<lparr>now = 30301, write_ok = True, rssi = - 60\<rparr>],
     lost_now = 30400, end_now = 30400\<rparr>"

definition session_in :: loop_in where
  "session_in = \<lparr>loop_now = 10300, central = Some peer\<rparr>"

definition idle_in :: "ulong \<Rightarrow> loop_in" where
  "idle_in t = \<lparr>loop_now = t, central = None\<rparr>"

text \<open>A second central, found at 60000 ms, whose only write fails.\<close>

definition peer2 :: central_in where
  "peer2 = \<lparr>address = ''bb'', deviceName = ''phone'', info_now = 60000, info_rssi = - 70,
     ticks = [\<lparr>now = 60050, write_ok = False, rssi = - 70\<rparr>],
     lost_now = 60100, end_now = 60100\<rparr>"

definition session2_in :: loop_in where
  "session2_in = \<lparr>loop_now = 60000, central = Some peer2\<rparr>"

text \<open>
  A sketch whose last send was at 1000 ms, and a central that is found at 990 ms after
  \<open>millis()\<close> has wrapped around, with the first iteration of the connected loop at
  1040 ms.
\<close>

definition g_wrapped :: globals where
  "g_wrapped = power_on\<lparr>totalConnections := 1, currentNumber := 1, lastNumberSent := 1000\<rparr>"

definition peer3 :: central_in where
  "peer3 = \<lparr>address = ''cc'', deviceName = [], info_now = 990, info_rssi = - 65,
     ticks = [\<lparr>now = 1040, write_ok = True, rssi = - 65\<rparr>],
     lost_now = 1090, end_now = 1090\<rparr>"

definition session3_in :: loop_in where
  "session3_in = \<lparr>loop_now = 990, central = Some peer3\<rparr>"

section \<open>Lemmas\<close>

lemma sint_succ:
  fixes c :: c_int
  assumes "0 \<le> sint c" "sint c \<le> 100"
  shows "sint (c + 1) = sint c + 1"
proof -
  have "sint (c + 1) = signed_take_bit (LENGTH(32) - 1) (sint c + sint (1 :: c_int))"
    by (rule sint_word_add)
  also have "\<dots> = signed_take_bit 31 (sint c + 1)"
    by simp
  also have "\<dots> = sint c + 1"
    using assms by (intro signed_take_bit_int_eq_self) simp_all
  finally show ?thesis .
qed

lemma sint_next_number:
  fixes c :: c_int
  assumes "0 \<le> sint c" "sint c \<le> 100"
  shows "sint (next_number c) = (sint c + 1) mod 101"
  using assms by (auto simp: next_number_def Let_def word_sless_alt sint_succ)

lemma writes_append: "writes (xs @ ys) = writes xs @ writes ys"
  by (induction xs rule: writes.induct) simp_all

lemma written_append: "written (xs @ ys) = written xs @ written ys"
  by (simp add: written_def writes_append)

lemma send_number_due:
  assumes "NUMBER_SEND_INTERVAL \<le> now tk - lastNumberSent g"
  shows "fst (send_number g tk) =
           g\<lparr>currentNumber := next_number (currentNumber g), lastNumberSent := now tk\<rparr>"
    and "writes (snd (send_number g tk)) = [(next_number (currentNumber g), write_ok tk)]"
  using assms by (simp_all add: send_number_def Let_def)

lemma send_number_not_due:
  assumes "\<not> NUMBER_SEND_INTERVAL \<le> now tk - lastNumberSent g"
  shows "send_number g tk = (g, [])"
  using assms by (simp add: send_number_def)

lemma connection_status_frame:
  "currentNumber (fst (connection_status g tk)) = currentNumber g"
  "lastNumberSent (fst (connection_status g tk)) = lastNumberSent g"
  "wasConnected (fst (connection_status g tk)) = wasConnected g"
  "connectionStartTime (fst (connection_status g tk)) = connectionStartTime g"
  "writes (snd (connection_status g tk)) = []"
  by (simp_all add: connection_status_def)

lemma connected_step_split:
  "fst (connected_step g tk) = fst (connection_status (fst (send_number g tk)) tk)"
  "snd (connected_step g tk) =
     snd (send_number g tk) @ snd (connection_status (fst (send_number g tk)) tk)"
  by (simp_all add: connected_step_def split_beta)

lemma connected_step_due:
  assumes "NUMBER_SEND_INTERVAL \<le> now tk - lastNumberSent g"
  shows "currentNumber (fst (connected_step g tk)) = next_number (currentNumber g)"
    and "lastNumberSent (fst (connected_step g tk)) = now tk"
    and "writes (snd (connected_step g tk)) = [(next_number (currentNumber g), write_ok tk)]"
  using assms
  by (simp_all add: connected_step_split connection_status_frame send_number_due writes_append)

lemma connected_step_not_due:
  assumes "\<not> NUMBER_SEND_INTERVAL \<le> now tk - lastNumberSent g"
  shows "currentNumber (fst (connected_step g tk)) = currentNumber g"
    and "lastNumberSent (fst (connected_step g tk)) = lastNumberSent g"
    and "writes (snd (connected_step g tk)) = []"
  using assms
  by (simp_all add: connected_step_split connection_status_frame send_number_not_due writes_append)

lemma connected_loop_Cons:
  "fst (connected_loop g (tk # tks)) = fst (connected_loop (fst (connected_step g tk)) tks)"
  "snd (connected_loop g (tk # tks)) =
     snd (connected_step g tk) @ snd (connected_loop (fst (connected_step g tk)) tks)"
  by (simp_all add: split_beta)

lemma counter_ok_step: "counter_ok g \<Longrightarrow> counter_ok (fst (connected_step g tk))"
  by (cases "NUMBER_SEND_INTERVAL \<le> now tk - lastNumberSent g")
     (simp_all add: counter_ok_def counter_def connected_step_due connected_step_not_due
        sint_next_number)

lemma upt_shift:
  "map f [Suc 0..<Suc (Suc n)] = f (Suc 0) # map (\<lambda>k. f (Suc k)) [Suc 0..<Suc n]"
proof -
  have "[Suc 0..<Suc (Suc n)] = Suc 0 # map Suc [Suc 0..<Suc n]"
    by (simp add: map_Suc_upt upt_conv_Cons del: upt_Suc)
  then show ?thesis by (simp add: comp_def del: upt_Suc)
qed

lemma written_connected_loop:
  "counter_ok g \<Longrightarrow>
   written (snd (connected_loop g tks)) =
     map (\<lambda>k. (counter g + int k) mod 101)
       [1..<Suc (length (writes (snd (connected_loop g tks))))] \<and>
   counter (fst (connected_loop g tks)) =
     (counter g + int (length (writes (snd (connected_loop g tks))))) mod 101"
proof (induction tks arbitrary: g)
  case Nil
  then show ?case by (simp add: written_def counter_ok_def)
next
  case (Cons tk tks)
  let ?g1 = "fst (connected_step g tk)"
  have ok1: "counter_ok ?g1" using Cons.prems by (rule counter_ok_step)
  note IH = Cons.IH [OF ok1]
  show ?case
  proof (cases "NUMBER_SEND_INTERVAL \<le> now tk - lastNumberSent g")
    case True
    have c1: "counter ?g1 = (counter g + 1) mod 101"
      using Cons.prems True
      by (simp add: counter_def counter_ok_def connected_step_due sint_next_number)
    have w1: "written (snd (connected_step g tk)) = [(counter g + 1) mod 101]"
      using Cons.prems True
      by (simp add: written_def counter_def counter_ok_def connected_step_due sint_next_number)
    have m: "((counter g + 1) mod 101 + k) mod 101 = (counter g + (1 + k)) mod 101" for k
      by (simp add: mod_add_left_eq add.assoc)
    show ?thesis
      using IH True
      by (simp add: connected_loop_Cons written_append writes_append w1 c1 m
          connected_step_due upt_shift add.assoc del: upt_Suc connected_loop.simps)
  next
    case False
    then show ?thesis
      using IH
      by (simp add: connected_loop_Cons written_append writes_append written_def
          connected_step_not_due counter_def del: upt_Suc connected_loop.simps)
  qed
qed

lemma counting_0: "counting c 0 = []"
  by (simp add: counting_def)

lemma counting_Suc: "counting c (Suc n) = (c + 1) mod 101 # counting ((c + 1) mod 101) n"
  by (simp add: counting_def upt_shift mod_add_left_eq add.assoc del: upt_Suc)

lemma counting_append:
  "counting c (a + b) = counting c a @ counting ((c + int a) mod 101) b"
proof (induction a arbitrary: c)
  case 0
  show ?case by (simp add: counting_def mod_add_left_eq)
next
  case (Suc a)
  have "((c + 1) mod 101 + int a) mod 101 = (c + int (Suc a)) mod 101"
    by (simp add: mod_add_left_eq) (simp add: algebra_simps)
  then show ?case
    using Suc.IH [of "(c + 1) mod 101"] by (simp add: counting_Suc)
qed

lemma counting_range: "v \<in> set (counting c n) \<Longrightarrow> 0 \<le> v \<and> v \<le> 100"
  by (auto simp: counting_def)

lemma written_counting_loop:
  "counter_ok g \<Longrightarrow>
   written (snd (connected_loop g tks)) =
     counting (counter g) (length (writes (snd (connected_loop g tks)))) \<and>
   counter (fst (connected_loop g tks)) =
     (counter g + int (length (writes (snd (connected_loop g tks))))) mod 101"
  using written_connected_loop [of g tks] by (simp add: counting_def)

lemma heartbeat_frame:
  "currentNumber (fst (heartbeat g t)) = currentNumber g"
  "lastNumberSent (fst (heartbeat g t)) = lastNumberSent g"
  "wasConnected (fst (heartbeat g t)) = wasConnected g"
  "writes (snd (heartbeat g t)) = []"
  "set (snd (heartbeat g t)) \<subseteq> {Log_waiting}"
  by (auto simp: heartbeat_def)

lemma new_connection_frame:
  "currentNumber (fst (new_connection g t c)) = currentNumber g"
  "lastNumberSent (fst (new_connection g t c)) = lastNumberSent g"
  "lastHeartbeat (fst (new_connection g t c)) = lastHeartbeat g"
  "writes (snd (new_connection g t c)) = []"
  by (simp_all add: new_connection_def)

lemma connection_lost_frame:
  "fst (connection_lost g c) = g\<lparr>wasConnected := False, lastHeartbeat := end_now c\<rparr>"
  "snd (connection_lost g c) =
     [Log_lost (address c) ((lost_now c - connectionStartTime g) div 1000),
      Advertise, Log_advertising_restarted]"
  "writes (snd (connection_lost g c)) = []"
  by (simp_all add: connection_lost_def)

lemma at_connect_frame:
  "currentNumber (at_connect g inp c) = currentNumber g"
  "lastNumberSent (at_connect g inp c) = lastNumberSent g"
  by (simp_all add: at_connect_def new_connection_frame heartbeat_frame)

lemma loop_None:
  "central inp = None \<Longrightarrow> loop g inp = heartbeat g (loop_now inp)"
  by (simp add: loop_def split_beta)

lemma loop_Some:
  assumes "central inp = Some c"
  shows "fst (loop g inp) = fst (connection_lost (at_disconnect g inp c) c)"
    and "snd (loop g inp) =
           snd (heartbeat g (loop_now inp)) @
           snd (new_connection (fst (heartbeat g (loop_now inp))) (loop_now inp) c) @
           snd (connected_loop (at_connect g inp c) (ticks c)) @
           snd (connection_lost (at_disconnect g inp c) c)"
  using assms by (simp_all add: loop_def split_beta at_connect_def at_disconnect_def)

lemma loop_writes:
  "writes (snd (loop g inp)) =
     (case central inp of None \<Rightarrow> []
      | Some c \<Rightarrow> writes (snd (connected_loop (at_connect g inp c) (ticks c))))"
  by (cases "central inp")
     (simp_all add: loop_None loop_Some writes_append heartbeat_frame new_connection_frame
        connection_lost_frame)

lemma loop_currentNumber:
  "currentNumber (fst (loop g inp)) =
     (case central inp of None \<Rightarrow> currentNumber g
      | Some c \<Rightarrow> currentNumber (at_disconnect g inp c))"
  by (cases "central inp")
     (simp_all add: loop_None loop_Some heartbeat_frame connection_lost_frame)

lemma written_counting_one:
  assumes "counter_ok g"
  shows "written (snd (loop g inp)) = counting (counter g) (length (writes (snd (loop g inp))))"
    and "counter (fst (loop g inp)) = (counter g + int (length (writes (snd (loop g inp))))) mod 101"
proof -
  show "written (snd (loop g inp)) = counting (counter g) (length (writes (snd (loop g inp))))"
  proof (cases "central inp")
    case None
    then show ?thesis by (simp add: loop_writes written_def counting_0)
  next
    case (Some c)
    have ok: "counter_ok (at_connect g inp c)"
      using assms by (simp add: counter_ok_def counter_def at_connect_frame)
    have "counter (at_connect g inp c) = counter g"
      by (simp add: counter_def at_connect_frame)
    with written_counting_loop [OF ok, of "ticks c"] Some show ?thesis
      by (simp add: loop_writes written_def)
  qed
  show "counter (fst (loop g inp)) = (counter g + int (length (writes (snd (loop g inp))))) mod 101"
  proof (cases "central inp")
    case None
    with assms show ?thesis
      by (simp add: loop_writes counter_def counter_ok_def loop_currentNumber)
  next
    case (Some c)
    have ok: "counter_ok (at_connect g inp c)"
      using assms by (simp add: counter_ok_def counter_def at_connect_frame)
    have "counter (at_connect g inp c) = counter g"
      by (simp add: counter_def at_connect_frame)
    with written_counting_loop [OF ok, of "ticks c"] Some show ?thesis
      by (simp add: loop_writes counter_def loop_currentNumber at_disconnect_def)
  qed
qed

lemma counter_ok_mod: "counter g = c mod 101 \<Longrightarrow> counter_ok g"
  by (simp add: counter_ok_def)

lemma run_Cons:
  "fst (run g (inp # inps)) = fst (run (fst (loop g inp)) inps)"
  "snd (run g (inp # inps)) = snd (loop g inp) @ snd (run (fst (loop g inp)) inps)"
  by (simp_all add: split_beta)

lemma written_counting_run:
  "counter_ok g \<Longrightarrow>
   written (snd (run g inps)) = counting (counter g) (length (writes (snd (run g inps)))) \<and>
   counter (fst (run g inps)) = (counter g + int (length (writes (snd (run g inps))))) mod 101"
proof (induction inps arbitrary: g)
  case Nil
  then show ?case by (simp add: written_def counting_0 counter_ok_def)
next
  case (Cons inp inps)
  let ?g1 = "fst (loop g inp)"
  let ?n1 = "length (writes (snd (loop g inp)))"
  note one = written_counting_one [OF Cons.prems, of inp]
  have ok1: "counter_ok ?g1" using one(2) by (rule counter_ok_mod)
  note IH = Cons.IH [OF ok1]
  have "((counter g + int ?n1) mod 101 + int n) mod 101 = (counter g + (int ?n1 + int n)) mod 101" for n
    by (simp add: mod_add_left_eq add.assoc)
  then show ?case
    using IH one
    by (simp add: run_Cons written_append writes_append counting_append
        del: run.simps)
qed

lemma halted_eq: "halted n evs = (None, evs @ replicate n Log_halted)"
proof (induction n arbitrary: evs)
  case 0
  show ?case by simp
next
  case (Suc n)
  show ?case by (simp add: Suc.IH replicate_app_Cons_same)
qed

lemma writes_replicate_halted: "writes (replicate n Log_halted) = []"
  by (induction n) simp_all

lemma sketch_setup_ok:
  assumes "begin_ok sinp"
  shows "fst (sketch_setup sinp fuel g) = Some (g\<lparr>lastHeartbeat := setup_now sinp\<rparr>)"
    and "writes (snd (sketch_setup sinp fuel g)) = [(currentNumber g, init_write_ok sinp)]"
  using assms by (simp_all add: sketch_setup_def)

lemma sketch_setup_failed:
  assumes "\<not> begin_ok sinp"
  shows "sketch_setup sinp fuel g =
           (None, [Begin False, Log_init_failed] @ replicate fuel Log_halted)"
  using assms by (simp add: sketch_setup_def halted_eq)

lemma sketch_ok:
  assumes "begin_ok sinp"
  shows "fst (sketch sinp fuel inps) =
           Some (fst (run (power_on\<lparr>lastHeartbeat := setup_now sinp\<rparr>) inps))"
    and "snd (sketch sinp fuel inps) =
           snd (sketch_setup sinp fuel power_on) @
           snd (run (power_on\<lparr>lastHeartbeat := setup_now sinp\<rparr>) inps)"
  using assms by (simp_all add: sketch_def sketch_setup_def split_beta)

lemma sketch_failed:
  assumes "\<not> begin_ok sinp"
  shows "sketch sinp fuel inps =
           (None, [Begin False, Log_init_failed] @ replicate fuel Log_halted)"
  using assms by (simp add: sketch_def sketch_setup_failed)

lemma counter_ok_power_on: "counter_ok (power_on\<lparr>lastHeartbeat := t\<rparr>)"
  by (simp add: counter_ok_def counter_def power_on_def)

lemma counter_ok_connected_loop: "counter_ok g \<Longrightarrow> counter_ok (fst (connected_loop g tks))"
  using written_counting_loop [of g tks] by (simp add: counter_ok_mod)

lemma counter_ok_loop: "counter_ok g \<Longrightarrow> counter_ok (fst (loop g inp))"
  using written_counting_one(2) [of g inp] by (simp add: counter_ok_mod)

lemma counter_ok_run: "counter_ok g \<Longrightarrow> counter_ok (fst (run g inps))"
  using written_counting_run [of g inps] by (simp add: counter_ok_mod)

lemma written_run_range:
  "counter_ok g \<Longrightarrow> v \<in> set (written (snd (run g inps))) \<Longrightarrow> 0 \<le> v \<and> v \<le> 100"
  using written_counting_run [of g inps] counting_range by simp

lemma writes_ok_connected_loop:
  "\<forall>tk\<in>set tks. write_ok tk \<Longrightarrow> w \<in> set (writes (snd (connected_loop g tks))) \<Longrightarrow> snd w"
proof (induction tks arbitrary: g)
  case Nil
  then show ?case by simp
next
  case (Cons tk tks)
  show ?case
  proof (cases "NUMBER_SEND_INTERVAL \<le> now tk - lastNumberSent g")
    case True
    with Cons show ?thesis
      by (auto simp: connected_loop_Cons writes_append connected_step_due
          simp del: connected_loop.simps)
  next
    case False
    with Cons show ?thesis
      by (auto simp: connected_loop_Cons writes_append connected_step_not_due
          simp del: connected_loop.simps)
  qed
qed

lemma no_advertise_connected_loop: "Advertise \<notin> set (snd (connected_loop g tks))"
proof (induction tks arbitrary: g)
  case Nil
  show ?case by simp
next
  case (Cons tk tks)
  have "Advertise \<notin> set (snd (connected_step g tk))"
    by (simp add: connected_step_split send_number_def connection_status_def Let_def)
  with Cons show ?case
    by (simp add: connected_loop_Cons del: connected_loop.simps)
qed

lemma le_of_nat_32:
  assumes "d < 2 ^ 32"
  shows "((1000 :: ulong) \<le> of_nat d) = (1000 \<le> d)"
proof -
  have "unat (of_nat d :: ulong) = d"
    using assms by (simp add: unat_of_nat)
  then show ?thesis by (simp add: word_le_nat_alt)
qed

lemma connected_step_sends:
  "(writes (snd (connected_step g tk)) \<noteq> []) = (NUMBER_SEND_INTERVAL \<le> now tk - lastNumberSent g)"
  by (cases "NUMBER_SEND_INTERVAL \<le> now tk - lastNumberSent g")
     (simp_all add: connected_step_due connected_step_not_due)

lemmas sketch_defs = sketch_def sketch_setup_def power_on_def loop_def heartbeat_def
  new_connection_def connection_lost_def connected_step_def send_number_def
  connection_status_def next_number_def NUMBER_SEND_INTERVAL_def Let_def word_sless_alt

lemma sint_eq_1: "sint (v :: c_int) = 1 \<Longrightarrow> v = 1"
  by (rule signed_word_eqI) simp

lemma no_advertise_before_loss:
  "Advertise \<notin> set (snd (heartbeat g t))"
  "Advertise \<notin> set (snd (new_connection g t c))"
  by (simp_all add: heartbeat_def new_connection_def)

lemma run_idle:
  "\<forall>inp\<in>set inps. central inp = None \<Longrightarrow>
   currentNumber (fst (run g inps)) = currentNumber g
   \<and> lastNumberSent (fst (run g inps)) = lastNumberSent g
   \<and> writes (snd (run g inps)) = []
   \<and> set (snd (run g inps)) \<subseteq> {Log_waiting}"
proof (induction inps arbitrary: g)
  case Nil
  show ?case by simp
next
  case (Cons inp inps)
  have none: "central inp = None" using Cons.prems by simp
  have rest: "\<forall>i\<in>set inps. central i = None" using Cons.prems by simp
  note IH = Cons.IH [OF rest, of "fst (loop g inp)"]
  show ?case
    using IH heartbeat_frame(5) [of g "loop_now inp"]
    by (simp add: run_Cons loop_None [OF none] heartbeat_frame writes_append
        del: run.simps)
qed

lemma send_number_frame:
  "lastHeartbeat (fst (send_number g tk)) = lastHeartbeat g"
  "connectionStartTime (fst (send_number g tk)) = connectionStartTime g"
  "Log_alive r u \<notin> set (snd (send_number g tk))"
  by (simp_all add: send_number_def Let_def)

lemma connection_status_alive:
  "(\<exists>r u. Log_alive r u \<in> set (snd (connection_status g tk))) = (30000 < now tk - lastHeartbeat g)"
  "30000 < now tk - lastHeartbeat g \<Longrightarrow>
     connection_status g tk =
       (g\<lparr>lastHeartbeat := now tk\<rparr>,
        [Log_alive (rssi tk) ((now tk - connectionStartTime g) div 1000)])"
  "\<not> 30000 < now tk - lastHeartbeat g \<Longrightarrow> connection_status g tk = (g, [])"
  by (simp_all add: connection_status_def)

lemma heartbeat_timer_age: "t - lastHeartbeat (fst (heartbeat g t)) \<le> 10000"
  by (simp add: heartbeat_def not_less)

lemma due_later:
  fixes t l d :: ulong
  assumes "1000 \<le> t - l" and "unat (t - l) + unat d < 2 ^ 32"
  shows "1000 \<le> t + d - l"
proof -
  have "unat ((t - l) + d) = unat (t - l) + unat d"
    using assms(2) unat_add_lem [of "t - l" d] by simp
  moreover have "1000 \<le> unat (t - l)"
    using assms(1) by (simp add: word_le_nat_alt)
  ultimately have "1000 \<le> unat ((t - l) + d)" by simp
  moreover have "(t - l) + d = t + d - l" by simp
  ultimately show ?thesis by (simp add: word_le_nat_alt)
qed

text \<open>
  The send is decided at line 173 with the time read at line 170, not with the time
  \<open>loop()\<close> read at line 143. A send that is due at the earlier time is still due at
  the later one as long as the difference to the last send has not wrapped around in
  between.
\<close>

lemma due_at_first_tick:
  assumes "NUMBER_SEND_INTERVAL \<le> loop_now inp - lastNumberSent g"
    and "now tk = loop_now inp + d"
    and "unat (loop_now inp - lastNumberSent g) + unat d < 2 ^ 32"
  shows "NUMBER_SEND_INTERVAL \<le> now tk - lastNumberSent g"
  using assms due_later [of "loop_now inp" "lastNumberSent g" d]
  by (simp add: NUMBER_SEND_INTERVAL_def)

text \<open>
  When it has wrapped around in between, the first iteration does not send: the
  difference is 4294967286 at line 143 and 40 at line 173.
\<close>

lemma not_due_after_wrap:
  "loop_now session3_in - lastNumberSent g_wrapped = 4294967286
   \<and> now (hd (ticks peer3)) - lastNumberSent g_wrapped = 40
   \<and> writes (snd (loop g_wrapped session3_in)) = []"
  by (simp add: sketch_defs g_wrapped_def peer3_def session3_in_def)

section \<open>The claims\<close>

text \<open>
  Claim C1. From a counter \<open>c0\<close> in \<open>[0, 100]\<close>, the values that a session hands to the
  characteristic are \<open>(c0 + 1, c0 + 2, \<dots>, c0 + N) mod 101\<close>, \<open>N\<close> being the number of sends;
  each lies in \<open>[0, 100]\<close>; when every write succeeds these are the values transmitted;
  and a send that fires at counter 100 writes 0.
\<close>

theorem C1_transmitted_sequence:
  assumes "counter_ok g"
  shows "written (snd (connected_loop g tks)) =
           map (\<lambda>k. (counter g + int k) mod 101)
             [1..<Suc (length (writes (snd (connected_loop g tks))))]
       \<and> (\<forall>v\<in>set (written (snd (connected_loop g tks))). 0 \<le> v \<and> v \<le> 100)
       \<and> ((\<forall>tk\<in>set tks. write_ok tk) \<longrightarrow>
            transmitted (snd (connected_loop g tks)) = written (snd (connected_loop g tks)))
       \<and> (counter g = 100 \<and> NUMBER_SEND_INTERVAL \<le> now tk - lastNumberSent g \<longrightarrow>
            written (snd (connected_step g tk)) = [0])"
proof -
  note seq = written_counting_loop [OF assms, of tks]
  have a: "written (snd (connected_loop g tks)) =
           map (\<lambda>k. (counter g + int k) mod 101)
             [1..<Suc (length (writes (snd (connected_loop g tks))))]"
    using seq by (simp add: counting_def)
  have b: "\<forall>v\<in>set (written (snd (connected_loop g tks))). 0 \<le> v \<and> v \<le> 100"
    using seq counting_range by simp
  have c: "transmitted (snd (connected_loop g tks)) = written (snd (connected_loop g tks))"
    if "\<forall>tk\<in>set tks. write_ok tk"
  proof -
    have "filter snd (writes (snd (connected_loop g tks))) = writes (snd (connected_loop g tks))"
      using writes_ok_connected_loop [OF that] by (intro filter_True) blast
    then show ?thesis by (simp add: transmitted_def written_def)
  qed
  have d: "written (snd (connected_step g tk)) = [0]"
    if "counter g = 100" "NUMBER_SEND_INTERVAL \<le> now tk - lastNumberSent g"
    using that assms
    by (simp add: written_def connected_step_due counter_def counter_ok_def sint_next_number)
  from a b c d show ?thesis by blast
qed

text \<open>Claim C1 at a concrete input.\<close>

theorem C1_transmitted_sequence_witness:
  "counter_ok g99 \<and> map write_ok three_ticks = [True, True, True, True]
   \<and> transmitted (snd (connected_loop g99 three_ticks)) = [100, 0, 1]"
proof -
  have ok: "counter_ok g99"
    by (simp add: counter_ok_def counter_def g99_def power_on_def)
  have n: "writes (snd (connected_loop g99 three_ticks)) = [(100, True), (0, True), (1, True)]"
    by (simp add: g99_def three_ticks_def power_on_def connected_step_def send_number_def
        connection_status_def next_number_def NUMBER_SEND_INTERVAL_def Let_def word_sless_alt)
  have all: "\<forall>tk\<in>set three_ticks. write_ok tk"
    by (simp add: three_ticks_def)
  have c: "counter g99 = 99"
    by (simp add: counter_def g99_def power_on_def)
  have m: "map write_ok three_ticks = [True, True, True, True]"
    by (simp add: three_ticks_def)
  show ?thesis
    using C1_transmitted_sequence [OF ok, of three_ticks "hd three_ticks"] ok all m
    by (simp add: n c)
qed

text \<open>
  Claim C2. In a session, an iteration sends if and only if \<open>T - L \<ge> 1000\<close>, the
  difference being the one the sketch computes on \<open>unsigned long\<close>; at \<open>T = L + 999\<close> it
  does not send and at \<open>T = L + 1000\<close> it does; and when \<open>d\<close> milliseconds, fewer than
  \<open>2 ^ 32\<close>, have passed since \<open>L\<close>, it sends if and only if \<open>d \<ge> 1000\<close>, also across the
  wrap-around of \<open>millis()\<close>.
\<close>

theorem C2_send_iff_interval:
  "(writes (snd (connected_step g tk)) \<noteq> []) = (1000 \<le> now tk - lastNumberSent g)
   \<and> (now tk = lastNumberSent g + 999 \<longrightarrow> writes (snd (connected_step g tk)) = [])
   \<and> (now tk = lastNumberSent g + 1000 \<longrightarrow> writes (snd (connected_step g tk)) \<noteq> [])
   \<and> (\<forall>d. d < 2 ^ 32 \<and> now tk = lastNumberSent g + of_nat d \<longrightarrow>
         (writes (snd (connected_step g tk)) \<noteq> []) = (1000 \<le> d))"
proof -
  have a: "(writes (snd (connected_step g tk)) \<noteq> []) = (1000 \<le> now tk - lastNumberSent g)"
    by (simp add: connected_step_sends NUMBER_SEND_INTERVAL_def)
  have b: "writes (snd (connected_step g tk)) = []" if "now tk = lastNumberSent g + 999"
    using a that by simp
  have c: "writes (snd (connected_step g tk)) \<noteq> []" if "now tk = lastNumberSent g + 1000"
    using a that by simp
  have d: "(writes (snd (connected_step g tk)) \<noteq> []) = (1000 \<le> d)"
    if "d < 2 ^ 32" "now tk = lastNumberSent g + of_nat d" for d
    using a that by (simp add: le_of_nat_32)
  from a b c d show ?thesis by blast
qed

text \<open>Claim C2 at a concrete input.\<close>

theorem C2_send_iff_interval_witness:
  "writes (snd (connected_step g_late \<lparr>now = 4294967000 + 999, write_ok = True, rssi = 0\<rparr>)) = []
   \<and> writes (snd (connected_step g_late \<lparr>now = 4294967000 + 1000, write_ok = True, rssi = 0\<rparr>)) \<noteq> []
   \<and> (1000 :: nat) < 2 ^ 32"
  using C2_send_iff_interval [of g_late "\<lparr>now = 4294967000 + 999, write_ok = True, rssi = 0\<rparr>"]
    C2_send_iff_interval [of g_late "\<lparr>now = 4294967000 + 1000, write_ok = True, rssi = 0\<rparr>"]
  by (simp add: g_late_def)

text \<open>
  Claim C3. The counter is in \<open>[0, 100]\<close> at power-on, stays there over every iteration
  of the connected loop, every call of \<open>loop()\<close> and every run of the sketch, and every
  value written to the characteristic is in \<open>[0, 100]\<close>.
\<close>

theorem C3_counter_range:
  "counter_ok power_on
   \<and> (counter_ok g \<longrightarrow>
        counter_ok (fst (connected_step g tk)) \<and> counter_ok (fst (connected_loop g tks))
        \<and> counter_ok (fst (loop g inp)) \<and> counter_ok (fst (run g inps))
        \<and> (\<forall>v\<in>set (written (snd (run g inps))). 0 \<le> v \<and> v \<le> 100))
   \<and> (\<forall>g'. fst (sketch sinp fuel inps) = Some g' \<longrightarrow> counter_ok g')
   \<and> (\<forall>v\<in>set (written (snd (sketch sinp fuel inps))). 0 \<le> v \<and> v \<le> 100)"
proof -
  let ?g0 = "power_on\<lparr>lastHeartbeat := setup_now sinp\<rparr>"
  have a: "counter_ok power_on"
    by (simp add: counter_ok_def counter_def power_on_def)
  have b: "counter_ok (fst (connected_step g tk)) \<and> counter_ok (fst (connected_loop g tks))
        \<and> counter_ok (fst (loop g inp)) \<and> counter_ok (fst (run g inps))
        \<and> (\<forall>v\<in>set (written (snd (run g inps))). 0 \<le> v \<and> v \<le> 100)" if "counter_ok g"
    using that counter_ok_step counter_ok_connected_loop counter_ok_loop counter_ok_run
      written_run_range by blast
  have c: "counter_ok g'" if "fst (sketch sinp fuel inps) = Some g'" for g'
  proof (cases "begin_ok sinp")
    case True
    with that have "g' = fst (run ?g0 inps)" by (simp add: sketch_ok)
    then show ?thesis by (simp add: counter_ok_run counter_ok_power_on)
  next
    case False
    with that show ?thesis by (simp add: sketch_failed)
  qed
  have d: "0 \<le> v \<and> v \<le> 100" if "v \<in> set (written (snd (sketch sinp fuel inps)))" for v
  proof (cases "begin_ok sinp")
    case True
    have "written (snd (sketch_setup sinp fuel power_on)) = [0]"
      using True by (simp add: written_def sketch_setup_ok power_on_def)
    with that True have "v = 0 \<or> v \<in> set (written (snd (run ?g0 inps)))"
      by (auto simp: sketch_ok written_append)
    then show ?thesis
      using written_run_range [OF counter_ok_power_on] by auto
  next
    case False
    with that show ?thesis
      by (simp add: sketch_failed written_def writes_append writes_replicate_halted)
  qed
  from a b c d show ?thesis by blast
qed

text \<open>Claim C3 at a concrete input.\<close>

theorem C3_counter_range_witness:
  "counter_ok g99
   \<and> counter (fst (connected_loop g99 three_ticks)) = 1
   \<and> counter_ok (fst (connected_loop g99 three_ticks))
   \<and> (\<exists>g'. fst (sketch sinp_ok 0 [session_in]) = Some g' \<and> counter_ok g')
   \<and> written (snd (sketch sinp_ok 0 [session_in])) = [0, 1, 2]"
proof -
  have ok: "counter_ok g99"
    by (simp add: counter_ok_def counter_def sketch_defs g99_def three_ticks_def sinp_ok_def session_in_def peer_def)
  have c: "counter (fst (connected_loop g99 three_ticks)) = 1"
    by (simp add: counter_def sketch_defs g99_def three_ticks_def sinp_ok_def session_in_def peer_def)
  have s: "\<exists>g'. fst (sketch sinp_ok 0 [session_in]) = Some g'"
    by (simp add: sketch_defs g99_def three_ticks_def sinp_ok_def session_in_def peer_def)
  have w: "written (snd (sketch sinp_ok 0 [session_in])) = [0, 1, 2]"
    by (simp add: written_def sketch_defs g99_def three_ticks_def sinp_ok_def session_in_def peer_def)
  show ?thesis
    using C3_counter_range [of g99 "hd three_ticks" three_ticks session_in "[session_in]"
        sinp_ok 0] ok c s w
    by auto
qed

text \<open>
  Claim C4. On a qualifying iteration the last-send timestamp becomes the current time
  and the counter advances, there is exactly one write, the globals afterwards are the
  same whether the write fails or succeeds, and the send is not due again at that time.
\<close>

theorem C4_timestamp_updated_regardless:
  assumes "NUMBER_SEND_INTERVAL \<le> now tk - lastNumberSent g"
  shows "lastNumberSent (fst (connected_step g tk)) = now tk
       \<and> currentNumber (fst (connected_step g tk)) = next_number (currentNumber g)
       \<and> fst (connected_step g (tk\<lparr>write_ok := False\<rparr>)) = fst (connected_step g (tk\<lparr>write_ok := True\<rparr>))
       \<and> writes (snd (connected_step g tk)) = [(next_number (currentNumber g), write_ok tk)]
       \<and> \<not> NUMBER_SEND_INTERVAL \<le> now tk - lastNumberSent (fst (connected_step g tk))"
proof -
  have "fst (connected_step g (tk\<lparr>write_ok := False\<rparr>)) = fst (connected_step g (tk\<lparr>write_ok := True\<rparr>))"
    by (simp add: connected_step_split send_number_def connection_status_def Let_def)
  then show ?thesis
    using assms by (simp add: connected_step_due NUMBER_SEND_INTERVAL_def)
qed

text \<open>Claim C4 at a concrete input.\<close>

theorem C4_timestamp_updated_regardless_witness:
  "NUMBER_SEND_INTERVAL \<le> now \<lparr>now = 704, write_ok = False, rssi = 0\<rparr> - lastNumberSent g_late
   \<and> lastNumberSent (fst (connected_step g_late \<lparr>now = 704, write_ok = False, rssi = 0\<rparr>)) = 704
   \<and> writes (snd (connected_step g_late \<lparr>now = 704, write_ok = False, rssi = 0\<rparr>)) = [(1, False)]
   \<and> fst (connected_step g_late \<lparr>now = 704, write_ok = False, rssi = 0\<rparr>) =
       fst (connected_step g_late \<lparr>now = 704, write_ok = True, rssi = 0\<rparr>)"
proof -
  have due: "NUMBER_SEND_INTERVAL \<le> now \<lparr>now = 704, write_ok = False, rssi = 0\<rparr> - lastNumberSent g_late"
    by (simp add: sketch_defs g_late_def)
  have n: "next_number (currentNumber g_late) = 1"
    by (simp add: sketch_defs g_late_def)
  show ?thesis
    using C4_timestamp_updated_regardless [OF due] due by (simp add: n sketch_defs g_late_def)
qed

text \<open>
  Claim C5. When the central is no longer connected, \<open>loop()\<close> clears \<open>wasConnected\<close>, sets
  the heartbeat timer to the current time and calls \<open>BLE.advertise()\<close>, once and after
  everything else; all other globals, the counter among them, are what they were when
  the connected loop ended. Over any run the counter is its first value plus the number
  of writes, modulo 101: no disconnection resets it.
\<close>

theorem C5_disconnect:
  assumes "central inp = Some c"
  shows "fst (loop g inp) = (at_disconnect g inp c)\<lparr>wasConnected := False, lastHeartbeat := end_now c\<rparr>
       \<and> wasConnected (fst (loop g inp)) = False
       \<and> lastHeartbeat (fst (loop g inp)) = end_now c
       \<and> currentNumber (fst (loop g inp)) = currentNumber (at_disconnect g inp c)
       \<and> (\<exists>pre. snd (loop g inp) =
             pre @ [Log_lost (address c)
                      ((lost_now c - connectionStartTime (at_disconnect g inp c)) div 1000),
                    Advertise, Log_advertising_restarted]
             \<and> Advertise \<notin> set pre)
       \<and> (counter_ok g \<longrightarrow>
            counter (fst (run g (inp # inps))) =
              (counter g + int (length (writes (snd (run g (inp # inps)))))) mod 101)"
proof -
  let ?pre = "snd (heartbeat g (loop_now inp)) @
           snd (new_connection (fst (heartbeat g (loop_now inp))) (loop_now inp) c) @
           snd (connected_loop (at_connect g inp c) (ticks c))"
  have st: "fst (loop g inp) =
      (at_disconnect g inp c)\<lparr>wasConnected := False, lastHeartbeat := end_now c\<rparr>"
    using assms by (simp add: loop_Some connection_lost_frame)
  have ev: "snd (loop g inp) =
             ?pre @ [Log_lost (address c)
                      ((lost_now c - connectionStartTime (at_disconnect g inp c)) div 1000),
                    Advertise, Log_advertising_restarted]"
    using assms by (simp add: loop_Some connection_lost_frame)
  have no: "Advertise \<notin> set ?pre"
    by (simp add: no_advertise_before_loss no_advertise_connected_loop)
  have run: "counter (fst (run g (inp # inps))) =
              (counter g + int (length (writes (snd (run g (inp # inps)))))) mod 101"
    if "counter_ok g"
    using written_counting_run [OF that, of "inp # inps"] by blast
  from ev no have "\<exists>pre. snd (loop g inp) =
             pre @ [Log_lost (address c)
                      ((lost_now c - connectionStartTime (at_disconnect g inp c)) div 1000),
                    Advertise, Log_advertising_restarted]
             \<and> Advertise \<notin> set pre"
    by blast
  with st run show ?thesis by simp
qed

text \<open>Claim C5 at a concrete input.\<close>

theorem C5_disconnect_witness:
  "central session_in = Some peer \<and> counter_ok g_ready
   \<and> currentNumber (at_disconnect g_ready session_in peer) = 2
   \<and> currentNumber (fst (loop g_ready session_in)) = 2
   \<and> wasConnected (fst (loop g_ready session_in)) = False
   \<and> lastHeartbeat (fst (loop g_ready session_in)) = 30400
   \<and> writes (snd (run g_ready [session_in, session2_in])) = [(1, True), (2, True), (3, False)]"
proof -
  have c: "central session_in = Some peer"
    by (simp add: session_in_def)
  have ok: "counter_ok g_ready"
    by (simp add: counter_ok_def counter_def sketch_defs g_ready_def session_in_def peer_def session2_in_def peer2_def)
  have d: "currentNumber (at_disconnect g_ready session_in peer) = 2"
    by (simp add: at_disconnect_def at_connect_def sketch_defs g_ready_def session_in_def peer_def session2_in_def peer2_def)
  have w: "writes (snd (run g_ready [session_in, session2_in])) = [(1, True), (2, True), (3, False)]"
    by (simp add: sketch_defs g_ready_def session_in_def peer_def session2_in_def peer2_def)
  show ?thesis
    using C5_disconnect [OF c, of g_ready "[session2_in]"] c ok d w
    by (simp add: peer_def)
qed

text \<open>
  Claim C6. Calls of \<open>loop()\<close> that find no central leave the counter and the last-send
  timestamp as they were and write nothing to the characteristic; all they may print is
  the waiting heartbeat.
\<close>

theorem C6_idle_no_send:
  assumes "\<forall>inp\<in>set inps. central inp = None"
  shows "currentNumber (fst (run g inps)) = currentNumber g
       \<and> lastNumberSent (fst (run g inps)) = lastNumberSent g
       \<and> writes (snd (run g inps)) = []
       \<and> set (snd (run g inps)) \<subseteq> {Log_waiting}"
  using assms by (rule run_idle)

text \<open>Claim C6 at a concrete input.\<close>

theorem C6_idle_no_send_witness:
  "map central [idle_in 10301, idle_in 10401] = [None, None]
   \<and> snd (run g_ready [idle_in 10301, idle_in 10401]) = [Log_waiting]
   \<and> currentNumber (fst (run g_ready [idle_in 10301, idle_in 10401])) = 0
   \<and> lastNumberSent (fst (run g_ready [idle_in 10301, idle_in 10401])) = 0"
proof -
  have idle: "\<forall>inp\<in>set [idle_in 10301, idle_in 10401]. central inp = None"
    by (simp add: idle_in_def)
  have ev: "snd (run g_ready [idle_in 10301, idle_in 10401]) = [Log_waiting]"
    by (simp add: sketch_defs g_ready_def idle_in_def)
  show ?thesis
    using C6_idle_no_send [OF idle, of g_ready] ev
    by (simp add: g_ready_def power_on_def idle_in_def)
qed

text \<open>
  Claim C7. When \<open>BLE.begin()\<close> fails, \<open>setup()\<close> has not returned after any number of
  iterations of its last loop, and the trace is the failed \<open>BLE.begin()\<close>, the error
  message and one halt message per iteration: no second \<open>BLE.begin()\<close>, no
  \<open>BLE.advertise()\<close>, nothing of \<open>loop()\<close>, whatever the later inputs are.
\<close>

theorem C7_halted_for_ever:
  assumes "\<not> begin_ok sinp"
  shows "fst (sketch sinp fuel inps) = None
       \<and> snd (sketch sinp fuel inps) = [Begin False, Log_init_failed] @ replicate fuel Log_halted
       \<and> Advertise \<notin> set (snd (sketch sinp fuel inps))
       \<and> Begin True \<notin> set (snd (sketch sinp fuel inps))
       \<and> length (filter (\<lambda>e. e = Begin False) (snd (sketch sinp fuel inps))) = 1"
  using assms by (simp add: sketch_failed)

text \<open>Claim C7 at a concrete input.\<close>

theorem C7_halted_for_ever_witness:
  "\<not> begin_ok sinp_failed
   \<and> sketch sinp_failed 3 [session_in] =
       (None, [Begin False, Log_init_failed, Log_halted, Log_halted, Log_halted])"
proof -
  have f: "\<not> begin_ok sinp_failed"
    by (simp add: sinp_failed_def)
  show ?thesis
    using C7_halted_for_ever [OF f, of 3 "[session_in]"] f
    by (simp add: prod_eq_iff numeral_3_eq_3)
qed

text \<open>
  Claim C8, as amended. In a session, an iteration prints the connection status, with
  the RSSI read from the central and the seconds of the session, exactly when more than
  30000 ms have passed since the heartbeat timer \<open>lastHeartbeat\<close> was last set, and then
  sets the timer to the current time; otherwise it leaves the timer alone. Connecting
  does not set the timer: when the session starts the timer is what the heartbeat check
  of \<open>loop()\<close> left, at most 10000 ms old.
\<close>

theorem C8_heartbeat_timer:
  "((\<exists>r u. Log_alive r u \<in> set (snd (connected_step g tk))) = (30000 < now tk - lastHeartbeat g))
   \<and> (30000 < now tk - lastHeartbeat g \<longrightarrow>
        Log_alive (rssi tk) ((now tk - connectionStartTime g) div 1000)
          \<in> set (snd (connected_step g tk))
        \<and> lastHeartbeat (fst (connected_step g tk)) = now tk)
   \<and> (\<not> 30000 < now tk - lastHeartbeat g \<longrightarrow>
        lastHeartbeat (fst (connected_step g tk)) = lastHeartbeat g)
   \<and> lastHeartbeat (at_connect g0 inp c) = lastHeartbeat (fst (heartbeat g0 (loop_now inp)))
   \<and> loop_now inp - lastHeartbeat (at_connect g0 inp c) \<le> 10000"
proof -
  let ?g1 = "fst (send_number g tk)"
  have a: "(\<exists>r u. Log_alive r u \<in> set (snd (connected_step g tk))) = (30000 < now tk - lastHeartbeat g)"
    using connection_status_alive(1) [where g = ?g1 and tk = tk]
    by (simp add: connected_step_split send_number_frame)
  have b: "Log_alive (rssi tk) ((now tk - connectionStartTime g) div 1000)
          \<in> set (snd (connected_step g tk))
        \<and> lastHeartbeat (fst (connected_step g tk)) = now tk"
    if "30000 < now tk - lastHeartbeat g"
    using that connection_status_alive(2) [where g = ?g1 and tk = tk]
    by (simp add: connected_step_split send_number_frame)
  have c: "lastHeartbeat (fst (connected_step g tk)) = lastHeartbeat g"
    if "\<not> 30000 < now tk - lastHeartbeat g"
    using that connection_status_alive(3) [where g = ?g1 and tk = tk]
    by (simp add: connected_step_split send_number_frame)
  have d: "lastHeartbeat (at_connect g0 inp c) = lastHeartbeat (fst (heartbeat g0 (loop_now inp)))"
    by (simp add: at_connect_def new_connection_frame)
  have e: "loop_now inp - lastHeartbeat (at_connect g0 inp c) \<le> 10000"
    by (simp add: d heartbeat_timer_age)
  from a b c d e show ?thesis by blast
qed

text \<open>Claim C8 at a concrete input.\<close>

theorem C8_heartbeat_timer_witness:
  "30000 < now \<lparr>now = 30301, write_ok = True, rssi = - 60\<rparr> - lastHeartbeat g_ready
   \<and> Log_alive (- 60) 30 \<in> set (snd (connected_step g_ready \<lparr>now = 30301, write_ok = True, rssi = - 60\<rparr>))
   \<and> \<not> 30000 < now \<lparr>now = 30300, write_ok = True, rssi = - 60\<rparr> - lastHeartbeat g_ready
   \<and> lastHeartbeat (fst (connected_step g_ready \<lparr>now = 30300, write_ok = True, rssi = - 60\<rparr>)) = 300"
  using C8_heartbeat_timer [of g_ready "\<lparr>now = 30301, write_ok = True, rssi = - 60\<rparr>" g_ready session_in peer]
    C8_heartbeat_timer [of g_ready "\<lparr>now = 30300, write_ok = True, rssi = - 60\<rparr>" g_ready session_in peer]
  by (simp add: g_ready_def power_on_def)

text \<open>
  Claim C8 as stated fails. \<open>setup()\<close> returns at 300 ms, a central is found at 10300 ms,
  and the iteration at 30301 ms prints the connection status: the session is 20001 ms
  old, and the message says 20 seconds.
\<close>

theorem C8_heartbeat_counterexample:
  "sketch sinp_ok 0 [session_in] =
   (Some \<lparr>lastHeartbeat = 30400, connectionStartTime = 10300,
      totalConnections = 1, wasConnected = False, currentNumber = 2,
      lastNumberSent = 30301\<rparr>,
    [Begin True, Set_local_name ''ArduinoNumber'', Set_advertised_service,
     Add_service, Write 0 True, Log_initial_value 0, Advertise,
     Log_setup_complete 0,
     Log_new_connection ''aa'' ''Unknown'' 0 (- 60),
     Write 1 True, Log_sent 1 0, Write 2 True, Log_sent 2 20,
     Log_alive (- 60) 20, Log_lost ''aa'' 20, Advertise,
     Log_advertising_restarted])
   \<and> now (ticks peer ! 1) - loop_now session_in = 20001"
  by (simp add: sketch_defs sinp_ok_def session_in_def peer_def)

text \<open>
  Claim C9. When \<open>setup()\<close> has returned, the counter and the last-send timestamp are 0,
  and whatever calls of \<open>loop()\<close> follow, the first value they write to the
  characteristic, if they write any, is 1.
\<close>

theorem C9_first_value_is_one:
  assumes "fst (sketch_setup sinp fuel power_on) = Some g"
  shows "currentNumber g = 0 \<and> lastNumberSent g = 0
       \<and> (\<forall>v ok ws. writes (snd (run g inps)) = (v, ok) # ws \<longrightarrow> v = 1)"
proof -
  have b: "begin_ok sinp"
    using assms by (cases "begin_ok sinp") (simp_all add: sketch_setup_failed)
  then have g: "g = power_on\<lparr>lastHeartbeat := setup_now sinp\<rparr>"
    using assms by (simp add: sketch_setup_ok)
  have ok: "counter_ok g" and c0: "counter g = 0"
    by (simp_all add: g counter_ok_def counter_def power_on_def)
  have "v = 1" if w: "writes (snd (run g inps)) = (v, ok) # ws" for v ok ws
  proof -
    have "written (snd (run g inps)) = counting 0 (Suc (length ws))"
      using written_counting_run [OF ok, of inps] by (simp add: w c0)
    then have "sint v = 1"
      by (simp add: written_def w counting_Suc)
    then show ?thesis by (rule sint_eq_1)
  qed
  then show ?thesis by (simp add: g power_on_def)
qed

text \<open>Claim C9 at a concrete input.\<close>

theorem C9_first_value_is_one_witness:
  "fst (sketch_setup sinp_ok 0 power_on) = Some g_ready
   \<and> writes (snd (run g_ready [idle_in 10301, session_in])) = [(1, True), (2, True)]"
proof -
  have s: "fst (sketch_setup sinp_ok 0 power_on) = Some g_ready"
    by (simp add: sketch_defs sinp_ok_def g_ready_def idle_in_def session_in_def peer_def)
  have w: "writes (snd (run g_ready [idle_in 10301, session_in])) = [(1, True), (2, True)]"
    by (simp add: sketch_defs sinp_ok_def g_ready_def idle_in_def session_in_def peer_def)
  show ?thesis
    using C9_first_value_is_one [OF s, of "[idle_in 10301, session_in]"] s w by simp
qed

text \<open>
  Claim C10. Connecting leaves the last-send timestamp alone. When \<open>loop()\<close> finds a
  central and the first iteration of the connected loop reads a time \<open>T\<close> with
  \<open>T - L \<ge> 1000\<close>, \<open>L\<close> being the last send of the session before and the difference the
  one line 173 computes, that first iteration sends: the first write of this call of
  \<open>loop()\<close> is made there, however young the connection is.
\<close>

theorem C10_send_on_reconnect:
  assumes "central inp = Some c" and "ticks c = tk # tks"
    and "NUMBER_SEND_INTERVAL \<le> now tk - lastNumberSent g"
  shows "lastNumberSent (at_connect g inp c) = lastNumberSent g
       \<and> writes (snd (connected_step (at_connect g inp c) tk)) =
           [(next_number (currentNumber g), write_ok tk)]
       \<and> (\<exists>ws. writes (snd (loop g inp)) = (next_number (currentNumber g), write_ok tk) # ws)"
proof -
  have due: "NUMBER_SEND_INTERVAL \<le> now tk - lastNumberSent (at_connect g inp c)"
    using assms(3) by (simp add: at_connect_frame)
  have first: "writes (snd (connected_step (at_connect g inp c) tk)) =
           [(next_number (currentNumber g), write_ok tk)]"
    using connected_step_due(3) [OF due] by (simp add: at_connect_frame)
  have "writes (snd (loop g inp)) =
          writes (snd (connected_step (at_connect g inp c) tk)) @
          writes (snd (connected_loop (fst (connected_step (at_connect g inp c) tk)) tks))"
    using assms(1,2)
    by (simp add: loop_writes connected_loop_Cons writes_append del: connected_loop.simps)
  with first show ?thesis by (simp add: at_connect_frame)
qed

text \<open>
  Claim C10 at a concrete input: the last send was at 30301 ms, the central is found at
  60000 ms, and the iteration at 60050 ms sends, 50 ms into the connection.
\<close>

theorem C10_send_on_reconnect_witness:
  "central session2_in = Some peer2
   \<and> ticks peer2 = [\<lparr>now = 60050, write_ok = False, rssi = - 70\<rparr>]
   \<and> NUMBER_SEND_INTERVAL \<le>
       now \<lparr>now = 60050, write_ok = False, rssi = - 70\<rparr> - lastNumberSent (fst (loop g_ready session_in))
   \<and> lastNumberSent (fst (loop g_ready session_in)) = 30301
   \<and> connectionStartTime (at_connect (fst (loop g_ready session_in)) session2_in peer2) = 60000
   \<and> writes (snd (loop (fst (loop g_ready session_in)) session2_in)) = [(3, False)]"
proof -
  let ?g = "fst (loop g_ready session_in)"
  let ?tk = "\<lparr>now = 60050, write_ok = False, rssi = - 70\<rparr>"
  have g: "?g = \<lparr>lastHeartbeat = 30400, connectionStartTime = 10300,
      totalConnections = 1, wasConnected = False, currentNumber = 2,
      lastNumberSent = 30301\<rparr>"
    by (simp add: sketch_defs g_ready_def session_in_def peer_def)
  have c: "central session2_in = Some peer2"
    by (simp add: session2_in_def)
  have t: "ticks peer2 = ?tk # []"
    by (simp add: peer2_def)
  have due: "NUMBER_SEND_INTERVAL \<le> now ?tk - lastNumberSent ?g"
    by (simp add: g) (simp add: NUMBER_SEND_INTERVAL_def)
  have l: "lastNumberSent ?g = 30301"
    by (simp add: g)
  have s: "connectionStartTime (at_connect ?g session2_in peer2) = 60000"
    by (simp add: g at_connect_def) (simp add: sketch_defs session2_in_def peer2_def)
  have w: "writes (snd (loop ?g session2_in)) = [(3, False)]"
    by (simp add: g) (simp add: sketch_defs session2_in_def peer2_def)
  show ?thesis
    using C10_send_on_reconnect [OF c t due] c t due l s w by simp
qed

end
